theory Spec2Isabelle
  imports Complex_Main
begin

section \<open>Data model\<close>

text \<open>
  The relational schema of the migration: one list of rows per table, in insertion order.
  Only the columns read or written by the follow service and by the pin queries are kept
  (\<open>email\<close>, \<open>username\<close>, \<open>content\<close>, \<open>updated_at\<close>, ... play no part in them).
  Identifiers are the \<open>TEXT\<close> primary keys of the schema. The coordinates of a pin are
  JavaScript numbers (IEEE doubles); their type is the parameter \<open>'n\<close>, of which nothing
  is assumed.
\<close>

datatype RequestStatus = PENDING | ACCEPTED | REJECTED

record User =
  user_id :: string
  isPrivate :: bool

record Follow =
  follow_id :: string
  followerId :: string
  followingId :: string

record FollowRequest =
  request_id :: string
  senderId :: string
  receiverId :: string
  status :: RequestStatus

record 'n Pin =
  pin_id :: string
  authorId :: string
  lat :: 'n
  lng :: 'n
  isPublic :: bool
  createdAt :: nat

record Like =
  like_id :: string
  like_pinId :: string
  like_userId :: string

record 'n Store =
  users :: "User list"
  follows :: "Follow list"
  followRequests :: "FollowRequest list"
  pins :: "'n Pin list"
  likes :: "Like list"

text \<open>
  A service method either returns a value or throws. \<open>Error msg\<close> is the
  \<^verbatim>\<open>throw new Error(msg)\<close> of the services; \<open>PrismaClientKnownRequestError code\<close> is
  the exception of the persistence client (\<open>P2002\<close> unique constraint, \<open>P2003\<close> foreign key,
  \<open>P2025\<close> record not found), which the services never construct themselves.
\<close>

datatype error = Error string | PrismaClientKnownRequestError string

type_synonym ('a, 'n) result = "(error + 'a) \<times> 'n Store"

text \<open>The failure kinds of the follow state machine, by the message the service throws.\<close>

abbreviation SelfFollowError :: error where
  "SelfFollowError \<equiv> Error ''You cannot follow yourself''"
abbreviation AlreadyFollowingError :: error where
  "AlreadyFollowingError \<equiv> Error ''Already following this user''"
abbreviation TargetNotFoundError :: error where
  "TargetNotFoundError \<equiv> Error ''User not found''"
abbreviation RequestAlreadyPendingError :: error where
  "RequestAlreadyPendingError \<equiv> Error ''Follow request already pending''"
abbreviation RequestNotFoundError :: error where
  "RequestNotFoundError \<equiv> Error ''Follow request not found''"
abbreviation UnauthorizedError :: error where
  "UnauthorizedError \<equiv> Error ''Unauthorized''"
abbreviation NotPendingError :: error where
  "NotPendingError \<equiv> Error ''Request is not pending''"

section \<open>The persistence client\<close>

text \<open>
  The queries the services issue, with the constraints of the schema: primary keys,
  the unique indexes \<open>follows_follower_id_following_id_key\<close> and
  \<open>follow_requests_sender_id_receiver_id_key\<close>, and the foreign keys to \<open>users\<close>.
  A rejected statement leaves the store as it was. The identifier of a created row is
  generated outside the services and is an argument here.
\<close>

definition user_findUnique :: "'n Store \<Rightarrow> string \<Rightarrow> User option" where
  "user_findUnique s i = find (\<lambda>u. user_id u = i) (users s)"

definition follow_findUnique :: "'n Store \<Rightarrow> string \<Rightarrow> string \<Rightarrow> Follow option" where
  "follow_findUnique s a b = find (\<lambda>f. followerId f = a \<and> followingId f = b) (follows s)"

definition followRequest_findUnique :: "'n Store \<Rightarrow> string \<Rightarrow> string \<Rightarrow> FollowRequest option" where
  "followRequest_findUnique s a b =
     find (\<lambda>r. senderId r = a \<and> receiverId r = b) (followRequests s)"

definition followRequest_findUnique_id :: "'n Store \<Rightarrow> string \<Rightarrow> FollowRequest option" where
  "followRequest_findUnique_id s i = find (\<lambda>r. request_id r = i) (followRequests s)"

definition follow_create :: "'n Store \<Rightarrow> string \<Rightarrow> string \<Rightarrow> string \<Rightarrow> (Follow, 'n) result" where
  "follow_create s newId a b =
     (if newId \<in> set (map follow_id (follows s)) \<or> follow_findUnique s a b \<noteq> None
      then (Inl (PrismaClientKnownRequestError ''P2002''), s)
      else if user_findUnique s a = None \<or> user_findUnique s b = None
      then (Inl (PrismaClientKnownRequestError ''P2003''), s)
      else let f = \<lparr>follow_id = newId, followerId = a, followingId = b\<rparr>
           in (Inr f, s\<lparr>follows := follows s @ [f]\<rparr>))"

definition follow_delete :: "'n Store \<Rightarrow> string \<Rightarrow> (Follow, 'n) result" where
  "follow_delete s i =
     (case find (\<lambda>f. follow_id f = i) (follows s) of
        None \<Rightarrow> (Inl (PrismaClientKnownRequestError ''P2025''), s)
      | Some f \<Rightarrow> (Inr f, s\<lparr>follows := filter (\<lambda>x. follow_id x \<noteq> i) (follows s)\<rparr>))"

definition followRequest_create ::
  "'n Store \<Rightarrow> string \<Rightarrow> string \<Rightarrow> string \<Rightarrow> (FollowRequest, 'n) result" where
  "followRequest_create s newId a b =
     (if newId \<in> set (map request_id (followRequests s)) \<or> followRequest_findUnique s a b \<noteq> None
      then (Inl (PrismaClientKnownRequestError ''P2002''), s)
      else if user_findUnique s a = None \<or> user_findUnique s b = None
      then (Inl (PrismaClientKnownRequestError ''P2003''), s)
      else let r = \<lparr>request_id = newId, senderId = a, receiverId = b, status = PENDING\<rparr>
           in (Inr r, s\<lparr>followRequests := followRequests s @ [r]\<rparr>))"

definition followRequest_update ::
  "'n Store \<Rightarrow> string \<Rightarrow> RequestStatus \<Rightarrow> (FollowRequest, 'n) result" where
  "followRequest_update s i st =
     (case followRequest_findUnique_id s i of
        None \<Rightarrow> (Inl (PrismaClientKnownRequestError ''P2025''), s)
      | Some r \<Rightarrow>
          (Inr (r\<lparr>status := st\<rparr>),
           s\<lparr>followRequests :=
               map (\<lambda>x. if request_id x = i then x\<lparr>status := st\<rparr> else x) (followRequests s)\<rparr>))"

definition followRequest_delete :: "'n Store \<Rightarrow> string \<Rightarrow> (FollowRequest, 'n) result" where
  "followRequest_delete s i =
     (case followRequest_findUnique_id s i of
        None \<Rightarrow> (Inl (PrismaClientKnownRequestError ''P2025''), s)
      | Some r \<Rightarrow> (Inr r, s\<lparr>followRequests := filter (\<lambda>x. request_id x \<noteq> i) (followRequests s)\<rparr>))"

text \<open>
  \<^verbatim>\<open>prisma.$transaction([p, q])\<close>: the two statements run in order inside one database
  transaction; when either is rejected the transaction is rolled back, so the store is
  the one before the first statement, and the exception reaches the caller.
\<close>

definition transaction ::
  "('n Store \<Rightarrow> ('a, 'n) result) \<Rightarrow> ('n Store \<Rightarrow> ('b, 'n) result) \<Rightarrow> 'n Store \<Rightarrow> ('a \<times> 'b, 'n) result" where
  "transaction p q s =
     (case p s of
        (Inl e, _) \<Rightarrow> (Inl e, s)
      | (Inr x, s1) \<Rightarrow>
          (case q s1 of
             (Inl e, _) \<Rightarrow> (Inl e, s)
           | (Inr y, s2) \<Rightarrow> (Inr (x, y), s2)))"

section \<open>FollowService\<close>

datatype FollowUserResult = TypeRequest FollowRequest | TypeFollow Follow

text \<open>
  \<open>followUser\<close>, in the three parts of its body: the branch for a private target
  (look up the request row, then resurrect, refuse or create), the insert for a public
  target, and the guards in front of both.
\<close>

definition followUser_private :: "'n Store \<Rightarrow> string \<Rightarrow> string \<Rightarrow> string \<Rightarrow> (FollowUserResult, 'n) result" where
  "followUser_private s newId followerId' followingId' =
     (let create = (case followRequest_create s newId followerId' followingId' of
                      (Inl e, s') \<Rightarrow> (Inl e, s')
                    | (Inr request, s') \<Rightarrow> (Inr (TypeRequest request), s'))
      in case followRequest_findUnique s followerId' followingId' of
           None \<Rightarrow> create
         | Some existingRequest \<Rightarrow>
             if status existingRequest = PENDING
             then (Inl (Error ''Follow request already pending''), s)
             else if status existingRequest = REJECTED
             then (case followRequest_update s (request_id existingRequest) PENDING of
                     (Inl e, s') \<Rightarrow> (Inl e, s')
                   | (Inr request, s') \<Rightarrow> (Inr (TypeRequest request), s'))
             else create)"

definition followUser_public :: "'n Store \<Rightarrow> string \<Rightarrow> string \<Rightarrow> string \<Rightarrow> (FollowUserResult, 'n) result" where
  "followUser_public s newId followerId' followingId' =
     (case follow_create s newId followerId' followingId' of
        (Inl e, s') \<Rightarrow> (Inl e, s')
      | (Inr follow, s') \<Rightarrow> (Inr (TypeFollow follow), s'))"

definition followUser :: "'n Store \<Rightarrow> string \<Rightarrow> string \<Rightarrow> string \<Rightarrow> (FollowUserResult, 'n) result" where
  "followUser s newId followerId' followingId' =
     (if followerId' = followingId' then (Inl (Error ''You cannot follow yourself''), s)
      else case follow_findUnique s followerId' followingId' of
        Some existingFollow \<Rightarrow> (Inl (Error ''Already following this user''), s)
      | None \<Rightarrow>
          (case user_findUnique s followingId' of
             None \<Rightarrow> (Inl (Error ''User not found''), s)
           | Some targetUser \<Rightarrow>
               if isPrivate targetUser then followUser_private s newId followerId' followingId'
               else followUser_public s newId followerId' followingId'))"

definition unfollowUser :: "'n Store \<Rightarrow> string \<Rightarrow> string \<Rightarrow> (bool, 'n) result" where
  "unfollowUser s followerId' followingId' =
     (case follow_findUnique s followerId' followingId' of
        None \<Rightarrow> (Inl (Error ''Not following this user''), s)
      | Some follow \<Rightarrow>
          (case follow_delete s (follow_id follow) of
             (Inl e, s') \<Rightarrow> (Inl e, s')
           | (Inr _, s') \<Rightarrow> (Inr True, s')))"

definition removeFollower :: "'n Store \<Rightarrow> string \<Rightarrow> string \<Rightarrow> (bool, 'n) result" where
  "removeFollower s userId followerId' =
     (case follow_findUnique s followerId' userId of
        None \<Rightarrow> (Inl (Error ''User is not following you''), s)
      | Some follow \<Rightarrow>
          (case follow_delete s (follow_id follow) of
             (Inl e, s') \<Rightarrow> (Inl e, s')
           | (Inr _, s') \<Rightarrow> (Inr True, s')))"

definition cancelFollowRequest :: "'n Store \<Rightarrow> string \<Rightarrow> string \<Rightarrow> (bool, 'n) result" where
  "cancelFollowRequest s senderId' receiverId' =
     (case followRequest_findUnique s senderId' receiverId' of
        None \<Rightarrow> (Inl (Error ''Follow request not found''), s)
      | Some request \<Rightarrow>
          if status request \<noteq> PENDING then (Inl (Error ''Can only cancel pending requests''), s)
          else (case followRequest_delete s (request_id request) of
                  (Inl e, s') \<Rightarrow> (Inl e, s')
                | (Inr _, s') \<Rightarrow> (Inr True, s')))"

definition acceptFollowRequest :: "'n Store \<Rightarrow> string \<Rightarrow> string \<Rightarrow> string \<Rightarrow> (Follow, 'n) result" where
  "acceptFollowRequest s newId receiverId' requestId =
     (case followRequest_findUnique_id s requestId of
        None \<Rightarrow> (Inl (Error ''Follow request not found''), s)
      | Some request \<Rightarrow>
          if receiverId request \<noteq> receiverId' then (Inl (Error ''Unauthorized''), s)
          else if status request \<noteq> PENDING then (Inl (Error ''Request is not pending''), s)
          else (case transaction
                       (\<lambda>t. follow_create t newId (senderId request) (receiverId request))
                       (\<lambda>t. followRequest_update t requestId ACCEPTED) s of
                  (Inl e, s') \<Rightarrow> (Inl e, s')
                | (Inr (follow, _), s') \<Rightarrow> (Inr follow, s')))"

definition rejectFollowRequest :: "'n Store \<Rightarrow> string \<Rightarrow> string \<Rightarrow> (bool, 'n) result" where
  "rejectFollowRequest s receiverId' requestId =
     (case followRequest_findUnique_id s requestId of
        None \<Rightarrow> (Inl (Error ''Follow request not found''), s)
      | Some request \<Rightarrow>
          if receiverId request \<noteq> receiverId' then (Inl (Error ''Unauthorized''), s)
          else if status request \<noteq> PENDING then (Inl (Error ''Request is not pending''), s)
          else (case followRequest_update s requestId REJECTED of
                  (Inl e, s') \<Rightarrow> (Inl e, s')
                | (Inr _, s') \<Rightarrow> (Inr True, s')))"

definition isFollowing :: "'n Store \<Rightarrow> string \<Rightarrow> string \<Rightarrow> bool" where
  "isFollowing s followerId' followingId' = (follow_findUnique s followerId' followingId' \<noteq> None)"

definition getFollowRequestStatus :: "'n Store \<Rightarrow> string \<Rightarrow> string \<Rightarrow> RequestStatus option" where
  "getFollowRequestStatus s senderId' receiverId' =
     (case followRequest_findUnique s senderId' receiverId' of
        None \<Rightarrow> None
      | Some request \<Rightarrow> Some (status request))"

section \<open>PinService\<close>

text \<open>
  An optional string argument is \<open>None\<close> when absent. JavaScript's truth test on it,
  \<^verbatim>\<open>if (userId)\<close>, also fails for the empty string.
\<close>

definition truthy :: "string option \<Rightarrow> bool" where
  "truthy x = (case x of None \<Rightarrow> False | Some v \<Rightarrow> v \<noteq> [])"

definition pin_findUnique :: "'n Store \<Rightarrow> string \<Rightarrow> 'n Pin option" where
  "pin_findUnique s i = find (\<lambda>p. pin_id p = i) (pins s)"

text \<open>
  The \<open>likes\<close> relation loaded with a pin: the viewer's likes of that pin when a viewer
  is given, not loaded otherwise.
\<close>

definition pin_likes :: "'n Store \<Rightarrow> 'n Pin \<Rightarrow> string option \<Rightarrow> Like list" where
  "pin_likes s pin userId =
     (case userId of
        None \<Rightarrow> []
      | Some u \<Rightarrow> if truthy userId
                  then filter (\<lambda>l. like_pinId l = pin_id pin \<and> like_userId l = u) (likes s)
                  else [])"

record 'n PinWithLikeStatus =
  pin :: "'n Pin"
  isLiked :: bool

definition withLikeStatus :: "'n Store \<Rightarrow> string option \<Rightarrow> 'n Pin \<Rightarrow> 'n PinWithLikeStatus" where
  "withLikeStatus s userId p =
     \<lparr>pin = p, isLiked = (if truthy userId then length (pin_likes s p userId) > 0 else False)\<rparr>"

definition getPinById :: "'n Store \<Rightarrow> string \<Rightarrow> string option \<Rightarrow> 'n PinWithLikeStatus option" where
  "getPinById s pinId userId =
     (case pin_findUnique s pinId of
        None \<Rightarrow> None
      | Some p \<Rightarrow>
          if \<not> isPublic p \<and> userId \<noteq> Some (authorId p)
          then (case userId of
                  None \<Rightarrow> None
                | Some u \<Rightarrow>
                    if truthy userId
                    then (case follow_findUnique s u (authorId p) of
                            None \<Rightarrow> None
                          | Some _ \<Rightarrow> Some (withLikeStatus s userId p))
                    else None)
          else Some (withLikeStatus s userId p))"

text \<open>
  JavaScript numbers are IEEE doubles. Their arithmetic is not defined here: the
  operations \<open>calculateDistance\<close> and \<open>getPins\<close> use are the fields of a record, and what is
  proved of the service holds whatever they compute, rounding, infinities and NaN
  included. \<open>literal i\<close> is the number an integer literal of the source denotes, \<open>num_le\<close> the
  comparison \<^verbatim>\<open><=\<close>.
\<close>

record 'n Arithmetic =
  literal :: "int \<Rightarrow> 'n"
  num_add :: "'n \<Rightarrow> 'n \<Rightarrow> 'n"
  num_sub :: "'n \<Rightarrow> 'n \<Rightarrow> 'n"
  num_mul :: "'n \<Rightarrow> 'n \<Rightarrow> 'n"
  num_div :: "'n \<Rightarrow> 'n \<Rightarrow> 'n"
  num_le :: "'n \<Rightarrow> 'n \<Rightarrow> bool"
  Math_sin :: "'n \<Rightarrow> 'n"
  Math_cos :: "'n \<Rightarrow> 'n"
  Math_sqrt :: "'n \<Rightarrow> 'n"
  Math_atan2 :: "'n \<Rightarrow> 'n \<Rightarrow> 'n"
  Math_PI :: 'n

definition deg2rad :: "'n Arithmetic \<Rightarrow> 'n \<Rightarrow> 'n" where
  "deg2rad M deg = num_mul M deg (num_div M (Math_PI M) (literal M 180))"

definition calculateDistance :: "'n Arithmetic \<Rightarrow> 'n \<Rightarrow> 'n \<Rightarrow> 'n \<Rightarrow> 'n \<Rightarrow> 'n" where
  "calculateDistance M lat1 lon1 lat2 lon2 =
     (let R = literal M 6371;
          dLat = deg2rad M (num_sub M lat2 lat1);
          dLon = deg2rad M (num_sub M lon2 lon1);
          a = num_add M
                (num_mul M (Math_sin M (num_div M dLat (literal M 2)))
                           (Math_sin M (num_div M dLat (literal M 2))))
                (num_mul M
                   (num_mul M
                      (num_mul M (Math_cos M (deg2rad M lat1)) (Math_cos M (deg2rad M lat2)))
                      (Math_sin M (num_div M dLon (literal M 2))))
                   (Math_sin M (num_div M dLon (literal M 2))));
          c = num_mul M (literal M 2)
                (Math_atan2 M (Math_sqrt M a) (Math_sqrt M (num_sub M (literal M 1) a)))
      in num_mul M R c)"

record PinWhereInput =
  where_authorId :: "string option"
  where_isPublic :: "bool option"

definition pin_matches :: "PinWhereInput \<Rightarrow> 'n Pin \<Rightarrow> bool" where
  "pin_matches w p =
     ((case where_authorId w of None \<Rightarrow> True | Some a \<Rightarrow> authorId p = a) \<and>
      (case where_isPublic w of None \<Rightarrow> True | Some b \<Rightarrow> isPublic p = b))"

text \<open>
  \<^verbatim>\<open>prisma.pin.findMany\<close> as \<open>getPins\<close> calls it: with a where clause, \<open>take\<close> and \<open>skip\<close>,
  ordered by \<open>createdAt\<close> descending. How the query engine pages (negative or non-integer
  \<open>take\<close>, numbers beyond its integer range) and in which order it returns rows of equal
  \<open>createdAt\<close> is not fixed by the repository, so its answer, a page or an exception, is a
  parameter of \<open>getPins\<close>.
\<close>

type_synonym 'n pin_findMany = "'n Store \<Rightarrow> PinWhereInput \<Rightarrow> 'n \<Rightarrow> 'n \<Rightarrow> error + 'n Pin list"

definition pin_count :: "'n Store \<Rightarrow> PinWhereInput \<Rightarrow> nat" where
  "pin_count s w = length (filter (pin_matches w) (pins s))"

record 'n GetPinsParams =
  param_userId :: "string option"
  param_authorId :: "string option"
  param_lat :: "'n option"
  param_lng :: "'n option"
  param_radius :: "'n option"
  param_isPublic :: "bool option"
  param_limit :: "'n option"
  param_offset :: "'n option"
  param_requestingUserId :: "string option"

record 'n GetPinsResult =
  result_pins :: "'n PinWithLikeStatus list"
  total :: nat

text \<open>
  The first half of \<open>getPins\<close>: the privacy check made when an author is asked for.
  It is \<open>True\<close> exactly when the method returns the empty result before any query for pins.
\<close>

definition getPins_denied :: "'n Store \<Rightarrow> 'n GetPinsParams \<Rightarrow> bool" where
  "getPins_denied s params =
     (case param_authorId params of
        None \<Rightarrow> False
      | Some authorId' \<Rightarrow>
          truthy (param_authorId params) \<and>
          param_requestingUserId params \<noteq> Some authorId' \<and>
          (case user_findUnique s authorId' of None \<Rightarrow> False | Some author \<Rightarrow> isPrivate author) \<and>
          (case param_requestingUserId params of
             None \<Rightarrow> True
           | Some r \<Rightarrow> \<not> truthy (param_requestingUserId params) \<or>
                       follow_findUnique s r authorId' = None))"

definition getPins_where :: "'n GetPinsParams \<Rightarrow> PinWhereInput" where
  "getPins_where params =
     \<lparr>where_authorId = (if truthy (param_authorId params) then param_authorId params else None),
      where_isPublic = param_isPublic params\<rparr>"

definition getPins ::
  "'n Arithmetic \<Rightarrow> 'n pin_findMany \<Rightarrow> 'n Store \<Rightarrow> 'n GetPinsParams \<Rightarrow> error + 'n GetPinsResult" where
  "getPins M findMany s params =
     (let limit = (case param_limit params of None \<Rightarrow> literal M 50 | Some n \<Rightarrow> n);
          offset = (case param_offset params of None \<Rightarrow> literal M 0 | Some n \<Rightarrow> n);
          requestingUserId = param_requestingUserId params
      in if getPins_denied s params then Inr \<lparr>result_pins = [], total = 0\<rparr>
         else
           let where' = getPins_where params
           in case findMany s where' limit offset of
                Inl e \<Rightarrow> Inl e
              | Inr pins' \<Rightarrow>
                  let filteredPins =
                        (case (param_lat params, param_lng params, param_radius params) of
                           (Some lat', Some lng', Some radius) \<Rightarrow>
                             filter (\<lambda>p. num_le M (calculateDistance M lat' lng' (lat p) (lng p))
                                            radius) pins'
                         | _ \<Rightarrow> pins');
                      pinsWithLikeStatus = map (withLikeStatus s requestingUserId) filteredPins;
                      total' = pin_count s where'
                  in Inr \<lparr>result_pins = pinsWithLikeStatus, total = total'\<rparr>)"

section \<open>Exact arithmetic\<close>

text \<open>
  The arithmetic the doubles approximate: the same operations without rounding, on the
  reals with one further value for a result that is not a number (the root of a negative
  number, a division by zero). The sample scenarios compute with it, and it is what
  \<open>calculateDistance\<close> is compared with the haversine distance in. \<open>real_atan2\<close> is the
  angle of the point \<open>(x, y)\<close>, as \<^verbatim>\<open>Math.atan2(y, x)\<close>.
\<close>

datatype exact_number = Exact real | NaN









section \<open>Sequences of operations\<close>

text \<open>
  The unique index on \<open>(sender_id, receiver_id)\<close> as a predicate on the store, and the
  six mutating operations of the follow service as a datatype, so that a history of
  calls is a list and the store after it a fold. A call that throws leaves its store.
\<close>

definition unique_requests :: "'n Store \<Rightarrow> bool" where
  "unique_requests s = distinct (map (\<lambda>r. (senderId r, receiverId r)) (followRequests s))"

datatype operation =
    FollowUser string string string
  | AcceptFollowRequest string string string
  | RejectFollowRequest string string
  | CancelFollowRequest string string
  | UnfollowUser string string
  | RemoveFollower string string

fun apply_operation :: "'n Store \<Rightarrow> operation \<Rightarrow> 'n Store" where
  "apply_operation s (FollowUser newId a b) = snd (followUser s newId a b)"
| "apply_operation s (AcceptFollowRequest newId a i) = snd (acceptFollowRequest s newId a i)"
| "apply_operation s (RejectFollowRequest a i) = snd (rejectFollowRequest s a i)"
| "apply_operation s (CancelFollowRequest a b) = snd (cancelFollowRequest s a b)"
| "apply_operation s (UnfollowUser a b) = snd (unfollowUser s a b)"
| "apply_operation s (RemoveFollower a b) = snd (removeFollower s a b)"

text \<open>What one step may do: keep the index intact and leave every other table alone.\<close>

definition keeps :: "'n Store \<Rightarrow> 'n Store \<Rightarrow> bool" where
  "keeps s s' \<longleftrightarrow>
     (unique_requests s \<longrightarrow> unique_requests s') \<and>
     users s' = users s \<and> pins s' = pins s \<and> likes s' = likes s"

section \<open>Sample stores\<close>

text \<open>
  Three registered users for the concrete scenarios: \<open>U1\<close> has a public profile,
  \<open>U2\<close> and \<open>U3\<close> private ones (the default of the schema).
\<close>

definition store0 :: "exact_number Store" where
  "store0 =
     \<lparr>users = [\<lparr>user_id = ''U1'', isPrivate = False\<rparr>,
               \<lparr>user_id = ''U2'', isPrivate = True\<rparr>,
               \<lparr>user_id = ''U3'', isPrivate = True\<rparr>],
      follows = [], followRequests = [], pins = [], likes = []\<rparr>"

definition request1 :: "RequestStatus \<Rightarrow> FollowRequest" where
  "request1 st = \<lparr>request_id = ''r1'', senderId = ''U2'', receiverId = ''U3'', status = st\<rparr>"

definition follow1 :: Follow where
  "follow1 = \<lparr>follow_id = ''f1'', followerId = ''U2'', followingId = ''U3''\<rparr>"

definition store_request :: "RequestStatus \<Rightarrow> exact_number Store" where
  "store_request st = store0\<lparr>followRequests := [request1 st]\<rparr>"

text \<open>
  A pending request of \<open>U2\<close> to \<open>U3\<close> next to an edge between the same two users, and a
  rejected request of \<open>U2\<close> to the public \<open>U1\<close>: rows the schema admits, left behind when
  the receiver's profile changed between private and public.
\<close>

definition store_pending_edge :: "exact_number Store" where
  "store_pending_edge = store0\<lparr>follows := [follow1], followRequests := [request1 PENDING]\<rparr>"

definition store_stale_request :: "exact_number Store" where
  "store_stale_request =
     store0\<lparr>followRequests :=
       [\<lparr>request_id = ''r9'', senderId = ''U2'', receiverId = ''U1'', status = REJECTED\<rparr>]\<rparr>"

text \<open>
  Pins: \<open>P\<close> is a non-public pin of the private \<open>U3\<close>; \<open>R\<close> and \<open>Q\<close> belong to the public
  \<open>U1\<close>, \<open>R\<close> public at the origin, \<open>Q\<close> non-public, newer, and on the far side of the
  equator.
\<close>

definition pinP :: "exact_number Pin" where
  "pinP = \<lparr>pin_id = ''P'', authorId = ''U3'', lat = Exact 0, lng = Exact 0, isPublic = False,
     createdAt = 1\<rparr>"

definition pinR :: "exact_number Pin" where
  "pinR = \<lparr>pin_id = ''R'', authorId = ''U1'', lat = Exact 0, lng = Exact 0, isPublic = True,
     createdAt = 1\<rparr>"

definition pinQ :: "exact_number Pin" where
  "pinQ = \<lparr>pin_id = ''Q'', authorId = ''U1'', lat = Exact 0, lng = Exact 180, isPublic = False,
     createdAt = 2\<rparr>"

definition store_pins :: "exact_number Store" where
  "store_pins = store0\<lparr>pins := [pinP, pinR, pinQ]\<rparr>"








lemmas prisma_defs =
  user_findUnique_def follow_findUnique_def followRequest_findUnique_def
  followRequest_findUnique_id_def follow_create_def follow_delete_def
  followRequest_create_def followRequest_update_def followRequest_delete_def
  transaction_def

lemmas service_defs =
  followUser_def followUser_private_def followUser_public_def unfollowUser_def
  removeFollower_def cancelFollowRequest_def acceptFollowRequest_def
  rejectFollowRequest_def isFollowing_def getFollowRequestStatus_def

section \<open>Lists of rows\<close>

lemma find_SomeD: "find P xs = Some x \<Longrightarrow> x \<in> set xs \<and> P x"
  by (induction xs) (auto split: if_splits)

lemma find_map_same:
  "(\<And>x. P (f x) = P x) \<Longrightarrow> find P (map f xs) = map_option f (find P xs)"
  by (induction xs) auto

lemma find_by_key:
  "distinct (map k xs) \<Longrightarrow> x \<in> set xs \<Longrightarrow> find (\<lambda>y. k y = k x) xs = Some x"
  by (induction xs) force+

lemma key_unique:
  "distinct (map k xs) \<Longrightarrow> x \<in> set xs \<Longrightarrow> y \<in> set xs \<Longrightarrow> k y = k x \<Longrightarrow> y = x"
  by (meson distinct_map inj_on_def)

lemma find_None_filter: "find P xs = None \<Longrightarrow> filter P xs = []"
  by (induction xs) (auto split: if_splits)

lemma find_append_last: "P x \<Longrightarrow> find P (xs @ [x]) \<noteq> None"
  by (induction xs) auto

lemma at_most_one_row:
  "distinct (map k xs) \<Longrightarrow> length (filter (\<lambda>x. k x = v) xs) \<le> 1"
  by (induction xs) (auto simp: filter_empty_conv image_iff)

lemma pairs_update:
  "map (\<lambda>r. (senderId r, receiverId r))
     (map (\<lambda>x. if request_id x = i then x\<lparr>status := st\<rparr> else x) xs) =
   map (\<lambda>r. (senderId r, receiverId r)) xs"
  by (induction xs) auto

lemma status_roundtrip:
  assumes "distinct (map request_id xs)" and "r \<in> set xs" and "status r = PENDING"
  shows "map (\<lambda>x. if request_id x = request_id r then x\<lparr>status := PENDING\<rparr> else x)
           (map (\<lambda>x. if request_id x = request_id r then x\<lparr>status := REJECTED\<rparr> else x) xs) = xs"
proof -
  have "(if request_id x = request_id r then x\<lparr>status := PENDING\<rparr> else x) = x"
    if "x \<in> set xs" for x
  proof (cases "request_id x = request_id r")
    case True
    with assms(1,2) that have "x = r" by (rule key_unique)
    with assms(3) show ?thesis by simp
  next
    case False
    then show ?thesis by simp
  qed
  then have "map (\<lambda>x. if request_id x = request_id r then x\<lparr>status := PENDING\<rparr> else x) xs = xs"
    by (simp add: map_idI)
  then show ?thesis
    by (simp add: comp_def if_distrib [of request_id] if_distrib [of "\<lambda>x. x\<lparr>status := PENDING\<rparr>"] cong: if_cong)
qed

section \<open>followUser\<close>

lemma followUser_private_none:
  assumes "a \<noteq> b" and "user_findUnique s b = Some ub" and "isPrivate ub"
    and "follow_findUnique s a b = None"
    and "followRequest_findUnique s a b = None" and "user_findUnique s a \<noteq> None"
    and "newId \<notin> set (map request_id (followRequests s))"
  shows "followUser s newId a b =
     (Inr (TypeRequest \<lparr>request_id = newId, senderId = a, receiverId = b, status = PENDING\<rparr>),
      s\<lparr>followRequests := followRequests s @
          [\<lparr>request_id = newId, senderId = a, receiverId = b, status = PENDING\<rparr>]\<rparr>)"
  using assms
  by (auto simp: followUser_def followUser_private_def followRequest_create_def Let_def)

lemma followUser_private_pending:
  assumes "a \<noteq> b" and "user_findUnique s b = Some ub" and "isPrivate ub"
    and "follow_findUnique s a b = None"
    and "followRequest_findUnique s a b = Some r" and "status r = PENDING"
  shows "followUser s newId a b = (Inl RequestAlreadyPendingError, s)"
  using assms by (simp add: followUser_def followUser_private_def)

lemma followUser_private_rejected:
  assumes "a \<noteq> b" and "user_findUnique s b = Some ub" and "isPrivate ub"
    and "follow_findUnique s a b = None"
    and "followRequest_findUnique s a b = Some r" and "status r = REJECTED"
    and "distinct (map request_id (followRequests s))"
  shows "followUser s newId a b =
     (Inr (TypeRequest (r\<lparr>status := PENDING\<rparr>)),
      s\<lparr>followRequests :=
          map (\<lambda>x. if request_id x = request_id r then x\<lparr>status := PENDING\<rparr> else x)
            (followRequests s)\<rparr>)"
proof -
  have "r \<in> set (followRequests s)"
    using assms(5) by (auto simp: followRequest_findUnique_def dest: find_SomeD)
  then have "followRequest_findUnique_id s (request_id r) = Some r"
    using assms(7) by (simp add: followRequest_findUnique_id_def find_by_key)
  then show ?thesis
    using assms by (simp add: followUser_def followUser_private_def followRequest_update_def)
qed

lemma reject_pending:
  assumes "followRequest_findUnique s a b = Some r" and "status r = PENDING"
    and "distinct (map request_id (followRequests s))"
  shows "rejectFollowRequest s b (request_id r) =
     (Inr True,
      s\<lparr>followRequests :=
          map (\<lambda>x. if request_id x = request_id r then x\<lparr>status := REJECTED\<rparr> else x)
            (followRequests s)\<rparr>)"
proof -
  have in_tbl: "r \<in> set (followRequests s)" and rcv: "receiverId r = b"
    using assms(1) by (auto simp: followRequest_findUnique_def dest: find_SomeD)
  then have "followRequest_findUnique_id s (request_id r) = Some r"
    using assms(3) by (simp add: followRequest_findUnique_id_def find_by_key)
  then show ?thesis
    using assms rcv by (simp add: rejectFollowRequest_def followRequest_update_def)
qed

lemma reject_then_followUser:
  assumes "a \<noteq> b" and "user_findUnique s b = Some ub" and "isPrivate ub"
    and "follow_findUnique s a b = None"
    and "followRequest_findUnique s a b = Some r" and "status r = PENDING"
    and "distinct (map request_id (followRequests s))"
  shows "getFollowRequestStatus (snd (rejectFollowRequest s b (request_id r))) a b = Some REJECTED \<and>
         followUser (snd (rejectFollowRequest s b (request_id r))) newId a b =
           (Inr (TypeRequest r), s)"
proof -
  let ?rej = "\<lambda>x. if request_id x = request_id r then x\<lparr>status := REJECTED\<rparr> else x"
  let ?s1 = "s\<lparr>followRequests := map ?rej (followRequests s)\<rparr>"
  have in_tbl: "r \<in> set (followRequests s)"
    using assms(5) by (auto simp: followRequest_findUnique_def dest: find_SomeD)
  have s1: "snd (rejectFollowRequest s b (request_id r)) = ?s1"
    using reject_pending [OF assms(5,6,7)] by simp
  have look: "followRequest_findUnique ?s1 a b = Some (r\<lparr>status := REJECTED\<rparr>)"
    using assms(5) by (simp add: followRequest_findUnique_def find_map_same)
  have ids: "distinct (map request_id (followRequests ?s1))"
    using assms(7) by (simp add: comp_def if_distrib cong: if_cong)
  have "followUser ?s1 newId a b =
     (Inr (TypeRequest (r\<lparr>status := REJECTED\<rparr>\<lparr>status := PENDING\<rparr>)),
      ?s1\<lparr>followRequests :=
          map (\<lambda>x. if request_id x = request_id (r\<lparr>status := REJECTED\<rparr>)
                    then x\<lparr>status := PENDING\<rparr> else x)
            (followRequests ?s1)\<rparr>)"
    using assms(1-4) look ids
    by (intro followUser_private_rejected [where ub = ub])
       (simp_all add: user_findUnique_def follow_findUnique_def)
  moreover have "r\<lparr>status := REJECTED\<rparr>\<lparr>status := PENDING\<rparr> = r"
    using assms(6) by simp
  ultimately have "followUser ?s1 newId a b = (Inr (TypeRequest r), s)"
    using status_roundtrip [OF assms(7) in_tbl assms(6)] by simp
  moreover have "getFollowRequestStatus ?s1 a b = Some REJECTED"
    using look by (simp add: getFollowRequestStatus_def)
  ultimately show ?thesis by (simp only: s1)
qed

section \<open>acceptFollowRequest\<close>

lemma accept_missing:
  "followRequest_findUnique_id s requestId = None \<Longrightarrow>
   acceptFollowRequest s newId receiver requestId = (Inl RequestNotFoundError, s)"
  by (simp add: acceptFollowRequest_def)

lemma accept_unauthorized:
  "followRequest_findUnique_id s requestId = Some r \<Longrightarrow> receiverId r \<noteq> receiver \<Longrightarrow>
   acceptFollowRequest s newId receiver requestId = (Inl UnauthorizedError, s)"
  by (simp add: acceptFollowRequest_def)

lemma accept_not_pending:
  "followRequest_findUnique_id s requestId = Some r \<Longrightarrow> receiverId r = receiver \<Longrightarrow>
   status r \<noteq> PENDING \<Longrightarrow>
   acceptFollowRequest s newId receiver requestId = (Inl NotPendingError, s)"
  by (simp add: acceptFollowRequest_def)

lemma accept_duplicate_edge:
  "followRequest_findUnique_id s requestId = Some r \<Longrightarrow> receiverId r = receiver \<Longrightarrow>
   status r = PENDING \<Longrightarrow> follow_findUnique s (senderId r) receiver \<noteq> None \<Longrightarrow>
   acceptFollowRequest s newId receiver requestId =
     (Inl (PrismaClientKnownRequestError ''P2002''), s)"
  by (auto simp: acceptFollowRequest_def transaction_def follow_create_def)

lemma accept_success:
  assumes "followRequest_findUnique_id s requestId = Some r" and "receiverId r = receiver"
    and "status r = PENDING" and "follow_findUnique s (senderId r) receiver = None"
    and "newId \<notin> set (map follow_id (follows s))"
    and "user_findUnique s (senderId r) \<noteq> None" and "user_findUnique s receiver \<noteq> None"
  shows "acceptFollowRequest s newId receiver requestId =
     (Inr \<lparr>follow_id = newId, followerId = senderId r, followingId = receiver\<rparr>,
      s\<lparr>follows := follows s @
            [\<lparr>follow_id = newId, followerId = senderId r, followingId = receiver\<rparr>],
        followRequests :=
            map (\<lambda>x. if request_id x = requestId then x\<lparr>status := ACCEPTED\<rparr> else x)
              (followRequests s)\<rparr>)"
  using assms
  by (auto simp: acceptFollowRequest_def transaction_def follow_create_def
      followRequest_update_def followRequest_findUnique_id_def Let_def)

lemma accepted_state:
  assumes "followRequest_findUnique_id s requestId = Some r"
  shows "isFollowing
      (s\<lparr>follows := follows s @ [\<lparr>follow_id = newId, followerId = a, followingId = b\<rparr>],
         followRequests :=
            map (\<lambda>x. if request_id x = requestId then x\<lparr>status := ACCEPTED\<rparr> else x)
              (followRequests s)\<rparr>) a b \<and>
     followRequest_findUnique_id
      (s\<lparr>follows := follows s @ [\<lparr>follow_id = newId, followerId = a, followingId = b\<rparr>],
         followRequests :=
            map (\<lambda>x. if request_id x = requestId then x\<lparr>status := ACCEPTED\<rparr> else x)
              (followRequests s)\<rparr>) requestId = Some (r\<lparr>status := ACCEPTED\<rparr>)"
proof -
  have "request_id r = requestId"
    using assms by (auto simp: followRequest_findUnique_id_def dest: find_SomeD)
  moreover have "find (\<lambda>x. request_id x = requestId)
      (map (\<lambda>x. if request_id x = requestId then x\<lparr>status := ACCEPTED\<rparr> else x) (followRequests s)) =
      map_option (\<lambda>x. if request_id x = requestId then x\<lparr>status := ACCEPTED\<rparr> else x)
        (find (\<lambda>x. request_id x = requestId) (followRequests s))"
    by (rule find_map_same) simp
  ultimately show ?thesis
    using assms
    by (simp add: isFollowing_def follow_findUnique_def followRequest_findUnique_id_def
        find_append_last)
qed

lemma accept_all_or_nothing:
  "(\<exists>e. acceptFollowRequest s newId receiver requestId = (Inl e, s)) \<or>
   (\<exists>f r. fst (acceptFollowRequest s newId receiver requestId) = Inr f \<and>
      followRequest_findUnique_id s requestId = Some r \<and>
      isFollowing (snd (acceptFollowRequest s newId receiver requestId)) (senderId r) (receiverId r) \<and>
      followRequest_findUnique_id (snd (acceptFollowRequest s newId receiver requestId)) requestId =
        Some (r\<lparr>status := ACCEPTED\<rparr>))"
proof (cases "followRequest_findUnique_id s requestId")
  case None
  then show ?thesis by (simp add: accept_missing)
next
  case (Some r)
  show ?thesis
  proof (cases "receiverId r = receiver \<and> status r = PENDING \<and>
      follow_findUnique s (senderId r) receiver = None \<and>
      newId \<notin> set (map follow_id (follows s)) \<and>
      user_findUnique s (senderId r) \<noteq> None \<and> user_findUnique s receiver \<noteq> None")
    case True
    then show ?thesis
      using Some accept_success [of s requestId r receiver newId]
        accepted_state [OF Some, of newId "senderId r" receiver]
      by simp
  next
    case False
    then have "\<exists>e. acceptFollowRequest s newId receiver requestId = (Inl e, s)"
      using Some
      by (auto simp: acceptFollowRequest_def transaction_def follow_create_def)
    then show ?thesis ..
  qed
qed

section \<open>Preservation of the unique index\<close>

lemma keeps_refl [simp]: "keeps s s"
  by (simp add: keeps_def)

lemma keeps_trans: "keeps s t \<Longrightarrow> keeps t u \<Longrightarrow> keeps s u"
  by (simp add: keeps_def)

lemma keeps_follow_create: "keeps s (snd (follow_create s n a b))"
  by (simp add: follow_create_def keeps_def unique_requests_def Let_def)

lemma keeps_follow_delete: "keeps s (snd (follow_delete s i))"
  by (simp add: follow_delete_def keeps_def unique_requests_def split: option.split)

lemma keeps_followRequest_create: "keeps s (snd (followRequest_create s n a b))"
proof -
  have "(a, b) \<notin> set (map (\<lambda>r. (senderId r, receiverId r)) (followRequests s))"
    if "followRequest_findUnique s a b = None"
    using that by (auto simp: followRequest_findUnique_def find_None_iff)
  then show ?thesis
    by (auto simp: followRequest_create_def keeps_def unique_requests_def Let_def)
qed

lemma keeps_followRequest_update: "keeps s (snd (followRequest_update s i st))"
  by (simp add: followRequest_update_def keeps_def unique_requests_def pairs_update
      del: map_map split: option.split)

lemma keeps_followRequest_delete: "keeps s (snd (followRequest_delete s i))"
  by (simp add: followRequest_delete_def keeps_def unique_requests_def distinct_map_filter
      split: option.split)

lemma keeps_transaction:
  assumes "\<And>t. keeps t (snd (p t))" and "\<And>t. keeps t (snd (q t))"
  shows "keeps s (snd (transaction p q s))"
proof (cases "p s")
  case (Pair x s1)
  then have 1: "keeps s s1" using assms(1) [of s] by simp
  show ?thesis
  proof (cases x)
    case (Inl e)
    with Pair show ?thesis by (simp add: transaction_def)
  next
    case (Inr v)
    obtain y s2 where q: "q s1 = (y, s2)" by (cases "q s1")
    then have "keeps s1 s2" using assms(2) [of s1] by simp
    with 1 have "keeps s s2" by (rule keeps_trans)
    with Pair Inr q show ?thesis by (cases y) (simp_all add: transaction_def)
  qed
qed

lemma keeps_map_result:
  "keeps s (snd r) \<Longrightarrow>
   keeps s (snd (case r of (Inl e, s') \<Rightarrow> (Inl e, s') | (Inr x, s') \<Rightarrow> (Inr (f x), s')))"
  by (cases r) (auto split: sum.splits)

lemma keeps_followUser: "keeps s (snd (followUser s n a b))"
  by (auto simp: followUser_def followUser_private_def followUser_public_def Let_def
      intro!: keeps_map_result keeps_follow_create keeps_followRequest_create
        keeps_followRequest_update
      split: option.split)

lemma keeps_unfollowUser: "keeps s (snd (unfollowUser s a b))"
  by (auto simp: unfollowUser_def intro!: keeps_map_result keeps_follow_delete
      split: option.split)

lemma keeps_removeFollower: "keeps s (snd (removeFollower s a b))"
  by (auto simp: removeFollower_def intro!: keeps_map_result keeps_follow_delete
      split: option.split)

lemma keeps_cancel: "keeps s (snd (cancelFollowRequest s a b))"
  by (auto simp: cancelFollowRequest_def intro!: keeps_map_result keeps_followRequest_delete
      split: option.split)

lemma keeps_reject: "keeps s (snd (rejectFollowRequest s a i))"
  by (auto simp: rejectFollowRequest_def intro!: keeps_map_result keeps_followRequest_update
      split: option.split)

lemma keeps_accept: "keeps s (snd (acceptFollowRequest s n a i))"
proof -
  have "keeps s (snd (case transaction (\<lambda>t. follow_create t n x y)
                  (\<lambda>t. followRequest_update t i ACCEPTED) s of
                  (Inl e, s') \<Rightarrow> (Inl e, s') | (Inr (follow, _), s') \<Rightarrow> (Inr follow, s')))" for x y
  proof -
    let ?T = "transaction (\<lambda>t. follow_create t n x y) (\<lambda>t. followRequest_update t i ACCEPTED) s"
    have "keeps s (snd ?T)"
      by (rule keeps_transaction) (rule keeps_follow_create keeps_followRequest_update)+
    then show ?thesis
      by (cases ?T) (auto split: sum.splits)
  qed
  then show ?thesis
    by (auto simp: acceptFollowRequest_def split: option.split)
qed

lemma keeps_apply_operation: "keeps s (apply_operation s operation)"
  by (cases operation)
    (simp_all add: keeps_followUser keeps_accept keeps_reject keeps_cancel keeps_unfollowUser
      keeps_removeFollower)

lemma keeps_foldl: "keeps s (foldl apply_operation s ops)"
proof (induction ops arbitrary: s)
  case Nil
  show ?case by simp
next
  case (Cons x ops)
  have "keeps s (apply_operation s x)" by (rule keeps_apply_operation)
  moreover have "keeps (apply_operation s x) (foldl apply_operation (apply_operation s x) ops)"
    by (rule Cons.IH)
  ultimately show ?case by (simp add: keeps_trans)
qed

lemma status_lookup:
  assumes "unique_requests s"
  shows "getFollowRequestStatus s a b = Some st \<longleftrightarrow>
     (\<exists>r \<in> set (followRequests s). senderId r = a \<and> receiverId r = b \<and> status r = st)"
proof
  assume "getFollowRequestStatus s a b = Some st"
  then show "\<exists>r \<in> set (followRequests s). senderId r = a \<and> receiverId r = b \<and> status r = st"
    by (auto simp: getFollowRequestStatus_def followRequest_findUnique_def
        split: option.splits dest: find_SomeD)
next
  assume "\<exists>r \<in> set (followRequests s). senderId r = a \<and> receiverId r = b \<and> status r = st"
  then obtain r where r: "r \<in> set (followRequests s)" "senderId r = a" "receiverId r = b"
    "status r = st" by blast
  have "find (\<lambda>y. (senderId y, receiverId y) = (senderId r, receiverId r)) (followRequests s) = Some r"
    using assms r(1) unfolding unique_requests_def by (rule find_by_key)
  with r show "getFollowRequestStatus s a b = Some st"
    by (simp add: getFollowRequestStatus_def followRequest_findUnique_def)
qed

section \<open>Pin queries\<close>

lemma users_irrelevant:
  "pin_findUnique (s\<lparr>users := us\<rparr>) = pin_findUnique s"
  "follow_findUnique (s\<lparr>users := us\<rparr>) = follow_findUnique s"
  "withLikeStatus (s\<lparr>users := us\<rparr>) = withLikeStatus s"
  by (simp_all add: fun_eq_iff pin_findUnique_def follow_findUnique_def withLikeStatus_def
      pin_likes_def split: option.split)






lemma getPins_from_page:
  assumes "getPins M findMany s params = Inr res" and "v \<in> set (result_pins res)"
  shows "\<exists>page. findMany s (getPins_where params)
             (case param_limit params of None \<Rightarrow> literal M 50 | Some n \<Rightarrow> n)
             (case param_offset params of None \<Rightarrow> literal M 0 | Some n \<Rightarrow> n) = Inr page \<and>
           pin v \<in> set page"
  using assms
  by (auto simp: getPins_def Let_def withLikeStatus_def
      split: if_splits sum.splits option.splits)

lemma getPins_isPublic_filter:
  assumes "param_isPublic params = Some b"
    and "findMany s (getPins_where params)
             (case param_limit params of None \<Rightarrow> literal M 50 | Some n \<Rightarrow> n)
             (case param_offset params of None \<Rightarrow> literal M 0 | Some n \<Rightarrow> n) = Inr page"
    and "\<forall>p \<in> set page. pin_matches (getPins_where params) p"
    and "getPins M findMany s params = Inr res" and "v \<in> set (result_pins res)"
  shows "isPublic (pin v) = b"
proof -
  from getPins_from_page [OF assms(4,5)] assms(2) have "pin v \<in> set page" by auto
  with assms(3) have "pin_matches (getPins_where params) (pin v)" by blast
  with assms(1) show ?thesis by (simp add: pin_matches_def getPins_where_def)
qed

section \<open>The distance in exact arithmetic\<close>















section \<open>Claims about the follow state machine\<close>

text \<open>
  C1, as amended. \<open>acceptFollowRequest\<close> fails with \<open>RequestNotFoundError\<close> when no row has
  the id, else with \<open>UnauthorizedError\<close> when the row's receiver is not the caller, else with
  \<open>NotPendingError\<close> when its status is not \<open>PENDING\<close>, each time leaving the store as it
  was. For a pending request of the caller's, in a store without an edge from the sender
  to the receiver (both of them existing users, the generated edge id being fresh), it
  creates the edge and sets the status to \<open>ACCEPTED\<close>: afterwards \<open>isFollowing\<close> holds and
  the stored row is the accepted one. When the edge is already there the transaction is
  rejected by the unique index and nothing is written. In every case the call either
  fails with the store untouched or leaves both effects in place.
\<close>

theorem acceptFollowRequest_effects:
  "(followRequest_findUnique_id s requestId = None \<longrightarrow>
      acceptFollowRequest s newId receiver requestId = (Inl RequestNotFoundError, s)) \<and>
   (\<forall>r. followRequest_findUnique_id s requestId = Some r \<longrightarrow>
      (receiverId r \<noteq> receiver \<longrightarrow>
         acceptFollowRequest s newId receiver requestId = (Inl UnauthorizedError, s)) \<and>
      (receiverId r = receiver \<and> status r \<noteq> PENDING \<longrightarrow>
         acceptFollowRequest s newId receiver requestId = (Inl NotPendingError, s)) \<and>
      (receiverId r = receiver \<and> status r = PENDING \<and>
       follow_findUnique s (senderId r) receiver \<noteq> None \<longrightarrow>
         acceptFollowRequest s newId receiver requestId =
           (Inl (PrismaClientKnownRequestError ''P2002''), s)) \<and>
      (receiverId r = receiver \<and> status r = PENDING \<and>
       follow_findUnique s (senderId r) receiver = None \<and>
       newId \<notin> set (map follow_id (follows s)) \<and>
       user_findUnique s (senderId r) \<noteq> None \<and> user_findUnique s receiver \<noteq> None \<longrightarrow>
         acceptFollowRequest s newId receiver requestId =
           (Inr \<lparr>follow_id = newId, followerId = senderId r, followingId = receiver\<rparr>,
            s\<lparr>follows := follows s @
                 [\<lparr>follow_id = newId, followerId = senderId r, followingId = receiver\<rparr>],
              followRequests :=
                 map (\<lambda>x. if request_id x = requestId then x\<lparr>status := ACCEPTED\<rparr> else x)
                   (followRequests s)\<rparr>) \<and>
         isFollowing (snd (acceptFollowRequest s newId receiver requestId)) (senderId r) receiver \<and>
         followRequest_findUnique_id (snd (acceptFollowRequest s newId receiver requestId))
           requestId = Some (r\<lparr>status := ACCEPTED\<rparr>))) \<and>
   ((\<exists>e. acceptFollowRequest s newId receiver requestId = (Inl e, s)) \<or>
    (\<exists>f r. fst (acceptFollowRequest s newId receiver requestId) = Inr f \<and>
       followRequest_findUnique_id s requestId = Some r \<and>
       isFollowing (snd (acceptFollowRequest s newId receiver requestId))
         (senderId r) (receiverId r) \<and>
       followRequest_findUnique_id (snd (acceptFollowRequest s newId receiver requestId))
         requestId = Some (r\<lparr>status := ACCEPTED\<rparr>)))"
proof -
  have ok: "isFollowing (snd (acceptFollowRequest s newId receiver requestId)) (senderId r) receiver \<and>
      followRequest_findUnique_id (snd (acceptFollowRequest s newId receiver requestId))
        requestId = Some (r\<lparr>status := ACCEPTED\<rparr>)"
    if "followRequest_findUnique_id s requestId = Some r" and "receiverId r = receiver"
      and "status r = PENDING" and "follow_findUnique s (senderId r) receiver = None"
      and "newId \<notin> set (map follow_id (follows s))"
      and "user_findUnique s (senderId r) \<noteq> None" and "user_findUnique s receiver \<noteq> None"
    for r
    using accept_success [OF that] accepted_state [OF that(1), of newId "senderId r" receiver]
    by simp
  show ?thesis
    using accept_all_or_nothing [of s newId receiver requestId]
    by (intro conjI allI impI)
       (simp_all add: accept_missing accept_unauthorized accept_not_pending
          accept_duplicate_edge accept_success ok)
qed

text \<open>
  The claim as stated promises both effects for every pending request of the caller's.
  In \<open>store_pending_edge\<close> the request \<open>r1\<close> of \<open>U2\<close> to \<open>U3\<close> is pending and the edge from
  \<open>U2\<close> to \<open>U3\<close> exists: the call throws the unique-constraint error, and the stored status
  is still \<open>PENDING\<close>.
\<close>

theorem acceptFollowRequest_existing_edge_counterexample:
  "followRequest_findUnique_id store_pending_edge ''r1'' = Some (request1 PENDING) \<and>
   status (request1 PENDING) = PENDING \<and> receiverId (request1 PENDING) = ''U3'' \<and>
   acceptFollowRequest store_pending_edge ''f2'' ''U3'' ''r1'' =
     (Inl (PrismaClientKnownRequestError ''P2002''), store_pending_edge) \<and>
   getFollowRequestStatus store_pending_edge ''U2'' ''U3'' = Some PENDING"
  by (simp add: store_pending_edge_def store0_def request1_def follow1_def prisma_defs
      acceptFollowRequest_def getFollowRequestStatus_def)

theorem acceptFollowRequest_effects_witness:
  "followRequest_findUnique_id store0 ''r1'' = None \<and>
   acceptFollowRequest store0 ''f1'' ''U3'' ''r1'' = (Inl RequestNotFoundError, store0) \<and>
   followRequest_findUnique_id (store_request PENDING) ''r1'' = Some (request1 PENDING) \<and>
   acceptFollowRequest (store_request PENDING) ''f1'' ''U1'' ''r1'' =
     (Inl UnauthorizedError, store_request PENDING) \<and>
   acceptFollowRequest (store_request REJECTED) ''f1'' ''U3'' ''r1'' =
     (Inl NotPendingError, store_request REJECTED) \<and>
   acceptFollowRequest store_pending_edge ''f2'' ''U3'' ''r1'' =
     (Inl (PrismaClientKnownRequestError ''P2002''), store_pending_edge) \<and>
   acceptFollowRequest (store_request PENDING) ''f1'' ''U3'' ''r1'' =
     (Inr follow1, store0\<lparr>follows := [follow1], followRequests := [request1 ACCEPTED]\<rparr>) \<and>
   isFollowing (snd (acceptFollowRequest (store_request PENDING) ''f1'' ''U3'' ''r1''))
     ''U2'' ''U3'' \<and>
   followRequest_findUnique_id
     (snd (acceptFollowRequest (store_request PENDING) ''f1'' ''U3'' ''r1'')) ''r1'' =
     Some (request1 ACCEPTED)"
proof -
  have none: "followRequest_findUnique_id store0 ''r1'' = None"
    by (simp add: followRequest_findUnique_id_def store0_def)
  have row: "followRequest_findUnique_id (store_request st) ''r1'' = Some (request1 st)" for st
    by (simp add: followRequest_findUnique_id_def store_request_def store0_def request1_def)
  have row': "followRequest_findUnique_id store_pending_edge ''r1'' = Some (request1 PENDING)"
    by (simp add: followRequest_findUnique_id_def store_pending_edge_def store0_def request1_def)
  have fields: "receiverId (request1 st) = ''U3''" "senderId (request1 st) = ''U2''"
    "status (request1 st) = st" "request1 st\<lparr>status := ACCEPTED\<rparr> = request1 ACCEPTED" for st
    by (simp_all add: request1_def)
  have edge: "follow_findUnique store_pending_edge ''U2'' ''U3'' \<noteq> None"
    by (simp add: follow_findUnique_def store_pending_edge_def store0_def follow1_def)
  have fresh: "follow_findUnique (store_request PENDING) ''U2'' ''U3'' = None"
    "''f1'' \<notin> set (map follow_id (follows (store_request PENDING)))"
    "user_findUnique (store_request PENDING) ''U2'' \<noteq> None"
    "user_findUnique (store_request PENDING) ''U3'' \<noteq> None"
    by (simp_all add: follow_findUnique_def user_findUnique_def store_request_def store0_def)
  have 1: "acceptFollowRequest store0 ''f1'' ''U3'' ''r1'' = (Inl RequestNotFoundError, store0)"
    using acceptFollowRequest_effects [of store0 "''r1''" "''f1''" "''U3''"] none by simp
  have 2: "acceptFollowRequest (store_request PENDING) ''f1'' ''U1'' ''r1'' =
     (Inl UnauthorizedError, store_request PENDING)"
    using acceptFollowRequest_effects [of "store_request PENDING" "''r1''" "''f1''" "''U1''"]
    by (simp add: row fields)
  have 3: "acceptFollowRequest (store_request REJECTED) ''f1'' ''U3'' ''r1'' =
     (Inl NotPendingError, store_request REJECTED)"
    using acceptFollowRequest_effects [of "store_request REJECTED" "''r1''" "''f1''" "''U3''"]
    by (simp add: row fields)
  have 4: "acceptFollowRequest store_pending_edge ''f2'' ''U3'' ''r1'' =
     (Inl (PrismaClientKnownRequestError ''P2002''), store_pending_edge)"
    using acceptFollowRequest_effects [of store_pending_edge "''r1''" "''f2''" "''U3''"] edge
    by (simp add: row' fields)
  have 5: "acceptFollowRequest (store_request PENDING) ''f1'' ''U3'' ''r1'' =
       (Inr \<lparr>follow_id = ''f1'', followerId = ''U2'', followingId = ''U3''\<rparr>,
        (store_request PENDING)\<lparr>follows := follows (store_request PENDING) @
             [\<lparr>follow_id = ''f1'', followerId = ''U2'', followingId = ''U3''\<rparr>],
          followRequests :=
             map (\<lambda>x. if request_id x = ''r1'' then x\<lparr>status := ACCEPTED\<rparr> else x)
               (followRequests (store_request PENDING))\<rparr>) \<and>
     isFollowing (snd (acceptFollowRequest (store_request PENDING) ''f1'' ''U3'' ''r1''))
       ''U2'' ''U3'' \<and>
     followRequest_findUnique_id
       (snd (acceptFollowRequest (store_request PENDING) ''f1'' ''U3'' ''r1'')) ''r1'' =
       Some (request1 ACCEPTED)"
    using acceptFollowRequest_effects [of "store_request PENDING" "''r1''" "''f1''" "''U3''"]
    by (simp (no_asm_use) add: row fields fresh [simplified]) blast
  have 6: "(store_request PENDING)\<lparr>follows := follows (store_request PENDING) @
             [\<lparr>follow_id = ''f1'', followerId = ''U2'', followingId = ''U3''\<rparr>],
          followRequests :=
             map (\<lambda>x. if request_id x = ''r1'' then x\<lparr>status := ACCEPTED\<rparr> else x)
               (followRequests (store_request PENDING))\<rparr> =
        store0\<lparr>follows := [follow1], followRequests := [request1 ACCEPTED]\<rparr>"
    by (simp add: store_request_def store0_def request1_def follow1_def)
  show ?thesis
    using none row [of PENDING] 1 2 3 4 5 unfolding 6 follow1_def by blast
qed

text \<open>
  C3, as amended. For users \<open>a \<noteq> b\<close>, \<open>b\<close> public and not yet followed by \<open>a\<close> (the
  generated edge id being fresh), \<open>followUser\<close> succeeds with a result of type "follow";
  afterwards exactly one edge from \<open>a\<close> to \<open>b\<close> exists, and the table of follow requests
  is the one before the call: no request row is created, and none is removed.
\<close>

theorem followUser_public_target:
  assumes "a \<noteq> b" and "user_findUnique s b = Some ub" and "\<not> isPrivate ub"
    and "follow_findUnique s a b = None" and "user_findUnique s a \<noteq> None"
    and "newId \<notin> set (map follow_id (follows s))"
  shows "followUser s newId a b =
           (Inr (TypeFollow \<lparr>follow_id = newId, followerId = a, followingId = b\<rparr>),
            s\<lparr>follows := follows s @ [\<lparr>follow_id = newId, followerId = a, followingId = b\<rparr>]\<rparr>) \<and>
         length (filter (\<lambda>f. followerId f = a \<and> followingId f = b)
                   (follows (snd (followUser s newId a b)))) = 1 \<and>
         followRequests (snd (followUser s newId a b)) = followRequests s"
proof -
  have run: "followUser s newId a b =
           (Inr (TypeFollow \<lparr>follow_id = newId, followerId = a, followingId = b\<rparr>),
            s\<lparr>follows := follows s @ [\<lparr>follow_id = newId, followerId = a, followingId = b\<rparr>]\<rparr>)"
    using assms by (auto simp: followUser_def followUser_public_def follow_create_def Let_def)
  have "filter (\<lambda>f. followerId f = a \<and> followingId f = b) (follows s) = []"
    using assms(4) by (simp add: follow_findUnique_def find_None_filter)
  then show ?thesis by (simp add: run)
qed

text \<open>
  The claim as stated also promises that no request row for the pair exists afterwards,
  whatever the store was before. In \<open>store_stale_request\<close> the public \<open>U1\<close> still has a
  rejected request of \<open>U2\<close>; the call creates the edge and the row is still there.
\<close>

theorem followUser_public_stale_request_counterexample:
  "''U2'' \<noteq> ''U1'' \<and>
   user_findUnique store_stale_request ''U1'' = Some \<lparr>user_id = ''U1'', isPrivate = False\<rparr> \<and>
   follow_findUnique store_stale_request ''U2'' ''U1'' = None \<and>
   followUser store_stale_request ''f1'' ''U2'' ''U1'' =
     (Inr (TypeFollow \<lparr>follow_id = ''f1'', followerId = ''U2'', followingId = ''U1''\<rparr>),
      store_stale_request
        \<lparr>follows := [\<lparr>follow_id = ''f1'', followerId = ''U2'', followingId = ''U1''\<rparr>]\<rparr>) \<and>
   followRequest_findUnique (snd (followUser store_stale_request ''f1'' ''U2'' ''U1''))
     ''U2'' ''U1'' =
     Some \<lparr>request_id = ''r9'', senderId = ''U2'', receiverId = ''U1'', status = REJECTED\<rparr>"
  by (simp add: store_stale_request_def store0_def prisma_defs followUser_def
      followUser_public_def Let_def)

theorem followUser_public_target_witness:
  "''U2'' \<noteq> ''U1'' \<and>
   user_findUnique store0 ''U1'' = Some \<lparr>user_id = ''U1'', isPrivate = False\<rparr> \<and>
   follow_findUnique store0 ''U2'' ''U1'' = None \<and>
   user_findUnique store0 ''U2'' \<noteq> None \<and>
   ''f1'' \<notin> set (map follow_id (follows store0)) \<and>
   followUser store0 ''f1'' ''U2'' ''U1'' =
     (Inr (TypeFollow \<lparr>follow_id = ''f1'', followerId = ''U2'', followingId = ''U1''\<rparr>),
      store0\<lparr>follows := [\<lparr>follow_id = ''f1'', followerId = ''U2'', followingId = ''U1''\<rparr>]\<rparr>) \<and>
   length (filter (\<lambda>f. followerId f = ''U2'' \<and> followingId f = ''U1'')
             (follows (snd (followUser store0 ''f1'' ''U2'' ''U1'')))) = 1 \<and>
   followRequests (snd (followUser store0 ''f1'' ''U2'' ''U1'')) = []"
proof -
  have h: "''U2'' \<noteq> ''U1''"
    "user_findUnique store0 ''U1'' = Some \<lparr>user_id = ''U1'', isPrivate = False\<rparr>"
    "\<not> isPrivate \<lparr>user_id = ''U1'', isPrivate = False\<rparr>"
    "follow_findUnique store0 ''U2'' ''U1'' = None"
    "user_findUnique store0 ''U2'' \<noteq> None"
    "''f1'' \<notin> set (map follow_id (follows store0))"
    by (simp_all add: store0_def user_findUnique_def follow_findUnique_def)
  have e: "follows store0 = []" "followRequests store0 = []"
    by (simp_all add: store0_def)
  show ?thesis
    using h(1,2,4,5,6) followUser_public_target [OF h] unfolding e append_Nil by blast
qed

text \<open>
  C4 does not hold of the code. The insert for a public target is not guarded: when the
  edge exists at the moment of the insert (another call created it after this call's
  check), the unique index rejects the row and the client's error reaches the caller as
  it is. It is not \<open>AlreadyFollowingError\<close>.
\<close>

theorem followUser_public_duplicate:
  assumes "follow_findUnique s a b \<noteq> None"
  shows "followUser_public s newId a b = (Inl (PrismaClientKnownRequestError ''P2002''), s) \<and>
         fst (followUser_public s newId a b) \<noteq> Inl AlreadyFollowingError"
  using assms by (simp add: followUser_public_def follow_create_def)

text \<open>
  Two calls \<open>followUser(U2, U1)\<close> that both passed their guards on \<open>store0\<close>: the first
  inserts its edge, the second's insert then runs on the store that holds it.
\<close>

theorem followUser_public_duplicate_witness:
  "follow_findUnique store0 ''U2'' ''U1'' = None \<and>
   snd (followUser store0 ''f1'' ''U2'' ''U1'') =
     store0\<lparr>follows := [\<lparr>follow_id = ''f1'', followerId = ''U2'', followingId = ''U1''\<rparr>]\<rparr> \<and>
   follow_findUnique (snd (followUser store0 ''f1'' ''U2'' ''U1'')) ''U2'' ''U1'' \<noteq> None \<and>
   followUser_public (snd (followUser store0 ''f1'' ''U2'' ''U1'')) ''f2'' ''U2'' ''U1'' =
     (Inl (PrismaClientKnownRequestError ''P2002''), snd (followUser store0 ''f1'' ''U2'' ''U1'')) \<and>
   fst (followUser_public (snd (followUser store0 ''f1'' ''U2'' ''U1'')) ''f2'' ''U2'' ''U1'') \<noteq>
     Inl AlreadyFollowingError"
proof -
  have 0: "follow_findUnique store0 ''U2'' ''U1'' = None"
    by (simp add: store0_def follow_findUnique_def)
  have 1: "snd (followUser store0 ''f1'' ''U2'' ''U1'') =
     store0\<lparr>follows := [\<lparr>follow_id = ''f1'', followerId = ''U2'', followingId = ''U1''\<rparr>]\<rparr>"
    by (simp add: store0_def prisma_defs followUser_def followUser_public_def Let_def)
  have 2: "follow_findUnique (snd (followUser store0 ''f1'' ''U2'' ''U1'')) ''U2'' ''U1'' \<noteq> None"
    by (simp add: 1) (simp add: follow_findUnique_def)
  show ?thesis
    using 0 1 2 followUser_public_duplicate [OF 2, of "''f2''"] by blast
qed

text \<open>
  C5: for users \<open>a \<noteq> b\<close>, \<open>b\<close> private and not followed by \<open>a\<close>, \<open>followUser\<close>
  (i) creates a \<open>PENDING\<close> request row and returns a result of type "request" when the pair
  has no row (the sender existing, the generated id fresh);
  (ii) fails with \<open>RequestAlreadyPendingError\<close> and leaves the store when the row is pending;
  (iii) sets the status of the existing row to \<open>PENDING\<close> when it is rejected: the row keeps
  its id, and the table keeps its length and its ids;
  (iv) so rejecting a pending row and asking again brings the same row from \<open>PENDING\<close> over
  \<open>REJECTED\<close> back to \<open>PENDING\<close>, the table being the one before the rejection.
  In (iii) and (iv) the row ids of the table are distinct, as its primary key demands.
\<close>

theorem followUser_private_target:
  assumes "a \<noteq> b" and "user_findUnique s b = Some ub" and "isPrivate ub"
    and "follow_findUnique s a b = None"
  shows
   "(followRequest_findUnique s a b = None \<and> user_findUnique s a \<noteq> None \<and>
     newId \<notin> set (map request_id (followRequests s)) \<longrightarrow>
       followUser s newId a b =
         (Inr (TypeRequest \<lparr>request_id = newId, senderId = a, receiverId = b, status = PENDING\<rparr>),
          s\<lparr>followRequests := followRequests s @
              [\<lparr>request_id = newId, senderId = a, receiverId = b, status = PENDING\<rparr>]\<rparr>)) \<and>
    (\<forall>r. followRequest_findUnique s a b = Some r \<and> status r = PENDING \<longrightarrow>
       followUser s newId a b = (Inl RequestAlreadyPendingError, s)) \<and>
    (\<forall>r. followRequest_findUnique s a b = Some r \<and> status r = REJECTED \<and>
         distinct (map request_id (followRequests s)) \<longrightarrow>
       fst (followUser s newId a b) = Inr (TypeRequest (r\<lparr>status := PENDING\<rparr>)) \<and>
       followRequest_findUnique (snd (followUser s newId a b)) a b = Some (r\<lparr>status := PENDING\<rparr>) \<and>
       map request_id (followRequests (snd (followUser s newId a b))) =
         map request_id (followRequests s)) \<and>
    (\<forall>r. followRequest_findUnique s a b = Some r \<and> status r = PENDING \<and>
         distinct (map request_id (followRequests s)) \<longrightarrow>
       fst (rejectFollowRequest s b (request_id r)) = Inr True \<and>
       getFollowRequestStatus (snd (rejectFollowRequest s b (request_id r))) a b = Some REJECTED \<and>
       followUser (snd (rejectFollowRequest s b (request_id r))) newId a b =
         (Inr (TypeRequest r), s))"
proof -
  have rejected:
    "fst (followUser s newId a b) = Inr (TypeRequest (r\<lparr>status := PENDING\<rparr>)) \<and>
     followRequest_findUnique (snd (followUser s newId a b)) a b = Some (r\<lparr>status := PENDING\<rparr>) \<and>
     map request_id (followRequests (snd (followUser s newId a b))) =
       map request_id (followRequests s)"
    if r: "followRequest_findUnique s a b = Some r" "status r = REJECTED"
      "distinct (map request_id (followRequests s))" for r
  proof -
    let ?upd = "\<lambda>x. if request_id x = request_id r then x\<lparr>status := PENDING\<rparr> else x"
    have run: "followUser s newId a b =
        (Inr (TypeRequest (r\<lparr>status := PENDING\<rparr>)),
         s\<lparr>followRequests := map ?upd (followRequests s)\<rparr>)"
      using assms r by (rule followUser_private_rejected)
    have "find (\<lambda>x. senderId x = a \<and> receiverId x = b) (map ?upd (followRequests s)) =
        map_option ?upd (find (\<lambda>x. senderId x = a \<and> receiverId x = b) (followRequests s))"
      by (rule find_map_same) simp
    then have look: "followRequest_findUnique (s\<lparr>followRequests := map ?upd (followRequests s)\<rparr>) a b =
        Some (r\<lparr>status := PENDING\<rparr>)"
      using r(1) by (simp add: followRequest_findUnique_def)
    have ids: "map request_id (map ?upd (followRequests s)) = map request_id (followRequests s)"
      by (induction "followRequests s") auto
    show ?thesis
      using look ids by (simp add: run del: map_map)
  qed
  have cycle:
    "fst (rejectFollowRequest s b (request_id r)) = Inr True \<and>
     getFollowRequestStatus (snd (rejectFollowRequest s b (request_id r))) a b = Some REJECTED \<and>
     followUser (snd (rejectFollowRequest s b (request_id r))) newId a b = (Inr (TypeRequest r), s)"
    if r: "followRequest_findUnique s a b = Some r" "status r = PENDING"
      "distinct (map request_id (followRequests s))" for r
    using reject_pending [OF r] reject_then_followUser [OF assms r, of newId] by simp
  show ?thesis
    using assms
    by (intro conjI allI impI)
       (simp_all add: followUser_private_none followUser_private_pending rejected cycle)
qed

theorem followUser_private_target_witness:
  "''U2'' \<noteq> ''U3'' \<and>
   user_findUnique store0 ''U3'' = Some \<lparr>user_id = ''U3'', isPrivate = True\<rparr> \<and>
   follow_findUnique store0 ''U2'' ''U3'' = None \<and>
   followRequest_findUnique store0 ''U2'' ''U3'' = None \<and>
   followUser store0 ''r1'' ''U2'' ''U3'' =
     (Inr (TypeRequest (request1 PENDING)), store_request PENDING) \<and>
   followRequest_findUnique (store_request PENDING) ''U2'' ''U3'' = Some (request1 PENDING) \<and>
   followUser (store_request PENDING) ''r2'' ''U2'' ''U3'' =
     (Inl RequestAlreadyPendingError, store_request PENDING) \<and>
   followRequest_findUnique (store_request REJECTED) ''U2'' ''U3'' = Some (request1 REJECTED) \<and>
   fst (followUser (store_request REJECTED) ''r2'' ''U2'' ''U3'') =
     Inr (TypeRequest (request1 PENDING)) \<and>
   followRequest_findUnique (snd (followUser (store_request REJECTED) ''r2'' ''U2'' ''U3''))
     ''U2'' ''U3'' = Some (request1 PENDING) \<and>
   map request_id (followRequests (snd (followUser (store_request REJECTED) ''r2'' ''U2'' ''U3''))) =
     [''r1''] \<and>
   fst (rejectFollowRequest (store_request PENDING) ''U3'' ''r1'') = Inr True \<and>
   getFollowRequestStatus (snd (rejectFollowRequest (store_request PENDING) ''U3'' ''r1''))
     ''U2'' ''U3'' = Some REJECTED \<and>
   followUser (snd (rejectFollowRequest (store_request PENDING) ''U3'' ''r1'')) ''r2'' ''U2'' ''U3'' =
     (Inr (TypeRequest (request1 PENDING)), store_request PENDING)"
proof -
  have ne: "''U2'' \<noteq> ''U3''" by simp
  have priv: "isPrivate \<lparr>user_id = ''U3'', isPrivate = True\<rparr>" by simp
  have u0: "user_findUnique store0 ''U3'' = Some \<lparr>user_id = ''U3'', isPrivate = True\<rparr>"
    and f0: "follow_findUnique store0 ''U2'' ''U3'' = None"
    and r0: "followRequest_findUnique store0 ''U2'' ''U3'' = None"
    and s0: "user_findUnique store0 ''U2'' \<noteq> None"
      "''r1'' \<notin> set (map request_id (followRequests store0))"
    by (simp_all add: store0_def user_findUnique_def follow_findUnique_def
        followRequest_findUnique_def)
  have u: "user_findUnique (store_request st) ''U3'' = Some \<lparr>user_id = ''U3'', isPrivate = True\<rparr>"
    and f: "follow_findUnique (store_request st) ''U2'' ''U3'' = None"
    and r: "followRequest_findUnique (store_request st) ''U2'' ''U3'' = Some (request1 st)"
    and d: "distinct (map request_id (followRequests (store_request st)))"
    and ids: "map request_id (followRequests (store_request st)) = [''r1'']" for st
    by (simp_all add: store_request_def store0_def request1_def user_findUnique_def
        follow_findUnique_def followRequest_findUnique_def)
  have fields: "status (request1 st) = st" "request_id (request1 st) = ''r1''"
    "request1 st\<lparr>status := PENDING\<rparr> = request1 PENDING" for st
    by (simp_all add: request1_def)
  have new: "store0\<lparr>followRequests := followRequests store0 @
      [\<lparr>request_id = ''r1'', senderId = ''U2'', receiverId = ''U3'', status = PENDING\<rparr>]\<rparr> =
      store_request PENDING"
    "\<lparr>request_id = ''r1'', senderId = ''U2'', receiverId = ''U3'', status = PENDING\<rparr> =
      request1 PENDING"
    "store0\<lparr>followRequests := followRequests store0 @ [request1 PENDING]\<rparr> =
      store_request PENDING"
    by (simp_all add: store_request_def store0_def request1_def)
  have 1: "followUser store0 ''r1'' ''U2'' ''U3'' =
     (Inr (TypeRequest (request1 PENDING)), store_request PENDING)"
    using followUser_private_target [OF ne u0 priv f0, of "''r1''"]
    by (simp (no_asm_use) add: r0 s0 [simplified] new; blast)
  have 2: "followUser (store_request PENDING) ''r2'' ''U2'' ''U3'' =
       (Inl RequestAlreadyPendingError, store_request PENDING) \<and>
     fst (rejectFollowRequest (store_request PENDING) ''U3'' ''r1'') = Inr True \<and>
     getFollowRequestStatus (snd (rejectFollowRequest (store_request PENDING) ''U3'' ''r1''))
       ''U2'' ''U3'' = Some REJECTED \<and>
     followUser (snd (rejectFollowRequest (store_request PENDING) ''U3'' ''r1'')) ''r2'' ''U2'' ''U3'' =
       (Inr (TypeRequest (request1 PENDING)), store_request PENDING)"
    using followUser_private_target [OF ne u [of PENDING] priv f [of PENDING], of "''r2''"]
    by (simp (no_asm_use) add: r d fields; blast)
  have 3: "fst (followUser (store_request REJECTED) ''r2'' ''U2'' ''U3'') =
       Inr (TypeRequest (request1 PENDING)) \<and>
     followRequest_findUnique (snd (followUser (store_request REJECTED) ''r2'' ''U2'' ''U3''))
       ''U2'' ''U3'' = Some (request1 PENDING) \<and>
     map request_id (followRequests (snd (followUser (store_request REJECTED) ''r2'' ''U2'' ''U3''))) =
       [''r1'']"
    using followUser_private_target [OF ne u [of REJECTED] priv f [of REJECTED], of "''r2''"]
    by (simp (no_asm_use) add: r d fields ids; blast)
  show ?thesis
    using ne u0 f0 r0 1 2 3 r [of PENDING] r [of REJECTED] by blast
qed

text \<open>
  C6: \<open>followUser\<close> checks self-follow first, then an existing edge, then the existence
  of the target: a self-follow fails with \<open>SelfFollowError\<close> whether or not the user
  exists, an existing edge fails with \<open>AlreadyFollowingError\<close> whether or not the target
  exists, and only then a missing target fails with \<open>TargetNotFoundError\<close>. In each case
  the store is returned as it was.
\<close>

theorem followUser_guard_order:
  "(a = t \<longrightarrow> followUser s newId a t = (Inl SelfFollowError, s)) \<and>
   (a \<noteq> t \<and> follow_findUnique s a t \<noteq> None \<longrightarrow>
      followUser s newId a t = (Inl AlreadyFollowingError, s)) \<and>
   (a \<noteq> t \<and> follow_findUnique s a t = None \<and> user_findUnique s t = None \<longrightarrow>
      followUser s newId a t = (Inl TargetNotFoundError, s))"
  by (auto simp: followUser_def)

theorem followUser_guard_order_witness:
  "followUser store0 ''f1'' ''ghost'' ''ghost'' = (Inl SelfFollowError, store0) \<and>
   user_findUnique store0 ''ghost'' = None \<and>
   ''U2'' \<noteq> ''gone'' \<and>
   follow_findUnique
     (store0\<lparr>follows := [\<lparr>follow_id = ''f0'', followerId = ''U2'', followingId = ''gone''\<rparr>]\<rparr>)
     ''U2'' ''gone'' \<noteq> None \<and>
   user_findUnique
     (store0\<lparr>follows := [\<lparr>follow_id = ''f0'', followerId = ''U2'', followingId = ''gone''\<rparr>]\<rparr>)
     ''gone'' = None \<and>
   followUser
     (store0\<lparr>follows := [\<lparr>follow_id = ''f0'', followerId = ''U2'', followingId = ''gone''\<rparr>]\<rparr>)
     ''f1'' ''U2'' ''gone'' =
     (Inl AlreadyFollowingError,
      store0\<lparr>follows := [\<lparr>follow_id = ''f0'', followerId = ''U2'', followingId = ''gone''\<rparr>]\<rparr>) \<and>
   follow_findUnique store0 ''U2'' ''ghost'' = None \<and>
   followUser store0 ''f1'' ''U2'' ''ghost'' = (Inl TargetNotFoundError, store0)"
  using followUser_guard_order [of "''ghost''" "''ghost''" store0 "''f1''"]
    followUser_guard_order [of "''U2''" "''gone''"
      "store0\<lparr>follows := [\<lparr>follow_id = ''f0'', followerId = ''U2'', followingId = ''gone''\<rparr>]\<rparr>" "''f1''"]
    followUser_guard_order [of "''U2''" "''ghost''" store0 "''f1''"]
  by (simp add: store0_def user_findUnique_def follow_findUnique_def)

text \<open>
  C7: if no two request rows share their (sender, receiver) pair, then after any sequence
  of \<open>followUser\<close>, \<open>acceptFollowRequest\<close>, \<open>rejectFollowRequest\<close>, \<open>cancelFollowRequest\<close>,
  \<open>unfollowUser\<close> and \<open>removeFollower\<close> calls, failed ones included, no two rows share it
  either: every pair has at most one row. The status reported for a pair is then the
  status of that row, and the calls touch no table but the edges and the requests.
\<close>

theorem unique_requests_invariant:
  assumes "unique_requests s"
  shows "unique_requests (foldl apply_operation s ops) \<and>
         length (filter (\<lambda>r. (senderId r, receiverId r) = (a, b))
                   (followRequests (foldl apply_operation s ops))) \<le> 1 \<and>
         (getFollowRequestStatus (foldl apply_operation s ops) a b = Some st) =
           (\<exists>r \<in> set (followRequests (foldl apply_operation s ops)).
              senderId r = a \<and> receiverId r = b \<and> status r = st) \<and>
         users (foldl apply_operation s ops) = users s \<and>
         pins (foldl apply_operation s ops) = pins s \<and>
         likes (foldl apply_operation s ops) = likes s"
proof -
  let ?s' = "foldl apply_operation s ops"
  have k: "keeps s ?s'" by (rule keeps_foldl)
  with assms have u: "unique_requests ?s'" by (simp add: keeps_def)
  then have "length (filter (\<lambda>r. (senderId r, receiverId r) = (a, b)) (followRequests ?s')) \<le> 1"
    unfolding unique_requests_def by (rule at_most_one_row)
  with k u status_lookup [OF u, of a b st] show ?thesis
    by (simp add: keeps_def)
qed

text \<open>
  From the empty tables: a request, its rejection, a second request, its acceptance, an
  unfollow and a third request leave the one row \<open>r1\<close>.
\<close>

theorem unique_requests_invariant_witness:
  "unique_requests store0 \<and>
   followRequests (foldl apply_operation store0
     [FollowUser ''r1'' ''U2'' ''U3'', RejectFollowRequest ''U3'' ''r1'',
      FollowUser ''r2'' ''U2'' ''U3'', AcceptFollowRequest ''f1'' ''U3'' ''r1'',
      UnfollowUser ''U2'' ''U3'', FollowUser ''r3'' ''U2'' ''U3'']) = [request1 ACCEPTED] \<and>
   unique_requests (foldl apply_operation store0
     [FollowUser ''r1'' ''U2'' ''U3'', RejectFollowRequest ''U3'' ''r1'',
      FollowUser ''r2'' ''U2'' ''U3'', AcceptFollowRequest ''f1'' ''U3'' ''r1'',
      UnfollowUser ''U2'' ''U3'', FollowUser ''r3'' ''U2'' ''U3'']) \<and>
   getFollowRequestStatus (foldl apply_operation store0
     [FollowUser ''r1'' ''U2'' ''U3'', RejectFollowRequest ''U3'' ''r1'',
      FollowUser ''r2'' ''U2'' ''U3'', AcceptFollowRequest ''f1'' ''U3'' ''r1'',
      UnfollowUser ''U2'' ''U3'', FollowUser ''r3'' ''U2'' ''U3'']) ''U2'' ''U3'' = Some ACCEPTED"
proof -
  let ?ops = "[FollowUser ''r1'' ''U2'' ''U3'', RejectFollowRequest ''U3'' ''r1'',
      FollowUser ''r2'' ''U2'' ''U3'', AcceptFollowRequest ''f1'' ''U3'' ''r1'',
      UnfollowUser ''U2'' ''U3'', FollowUser ''r3'' ''U2'' ''U3'']"
  have u0: "unique_requests store0"
    by (simp add: unique_requests_def store0_def)
  have rows: "followRequests (foldl apply_operation store0 ?ops) = [request1 ACCEPTED]"
    by (simp add: store0_def request1_def prisma_defs service_defs Let_def)
  have "\<exists>r \<in> set [request1 ACCEPTED].
      senderId r = ''U2'' \<and> receiverId r = ''U3'' \<and> status r = ACCEPTED"
    by (simp add: request1_def)
  with unique_requests_invariant [OF u0, of ?ops "''U2''" "''U3''" ACCEPTED]
  have "unique_requests (foldl apply_operation store0 ?ops) \<and>
    getFollowRequestStatus (foldl apply_operation store0 ?ops) ''U2'' ''U3'' = Some ACCEPTED"
    unfolding rows by blast
  with u0 rows show ?thesis by blast
qed

text \<open>
  C10: when the target is private, no edge exists and the pair's request row is
  \<open>ACCEPTED\<close> (what is left after an accepted request and an unfollow), \<open>followUser\<close> neither
  refuses as pending nor revives the row: it tries to insert a second row for the pair.
  The unique index rejects it, so for every generated id the call throws the client's
  \<open>P2002\<close> error, which is none of the failure kinds of the service, and leaves the store
  as it was: the same call fails again.
\<close>

theorem followUser_accepted_row:
  assumes "a \<noteq> b" and "user_findUnique s b = Some ub" and "isPrivate ub"
    and "follow_findUnique s a b = None"
    and "followRequest_findUnique s a b = Some r" and "status r = ACCEPTED"
  shows "followUser s newId a b = followUser_private s newId a b \<and>
         fst (followRequest_create s newId a b) = Inl (PrismaClientKnownRequestError ''P2002'') \<and>
         followUser s newId a b = (Inl (PrismaClientKnownRequestError ''P2002''), s) \<and>
         (\<forall>msg. fst (followUser s newId a b) \<noteq> Inl (Error msg)) \<and>
         followUser (snd (followUser s newId a b)) newId' a b =
           (Inl (PrismaClientKnownRequestError ''P2002''), s)"
proof -
  have 1: "followUser s newId a b = followUser_private s newId a b" for newId
    using assms by (simp add: followUser_def)
  have 2: "followRequest_create s newId a b = (Inl (PrismaClientKnownRequestError ''P2002''), s)"
    for newId
    using assms(5) by (simp add: followRequest_create_def)
  have 3: "followUser_private s newId a b = (Inl (PrismaClientKnownRequestError ''P2002''), s)"
    for newId
    using assms(5,6) by (simp add: followUser_private_def 2)
  show ?thesis by (simp add: 1 2 3)
qed

text \<open>
  The history behind such a store: \<open>U2\<close> asks to follow the private \<open>U3\<close>, \<open>U3\<close> accepts,
  \<open>U2\<close> unfollows, and \<open>U2\<close> asks again.
\<close>

theorem followUser_accepted_row_witness:
  "foldl apply_operation store0
     [FollowUser ''r1'' ''U2'' ''U3'', AcceptFollowRequest ''f1'' ''U3'' ''r1'',
      UnfollowUser ''U2'' ''U3''] = store_request ACCEPTED \<and>
   ''U2'' \<noteq> ''U3'' \<and>
   user_findUnique (store_request ACCEPTED) ''U3'' = Some \<lparr>user_id = ''U3'', isPrivate = True\<rparr> \<and>
   follow_findUnique (store_request ACCEPTED) ''U2'' ''U3'' = None \<and>
   followRequest_findUnique (store_request ACCEPTED) ''U2'' ''U3'' = Some (request1 ACCEPTED) \<and>
   followUser (store_request ACCEPTED) ''r2'' ''U2'' ''U3'' =
     (Inl (PrismaClientKnownRequestError ''P2002''), store_request ACCEPTED)"
proof -
  have hist: "foldl apply_operation store0
     [FollowUser ''r1'' ''U2'' ''U3'', AcceptFollowRequest ''f1'' ''U3'' ''r1'',
      UnfollowUser ''U2'' ''U3''] = store_request ACCEPTED"
    by (simp add: store_request_def store0_def request1_def prisma_defs service_defs Let_def)
  have ne: "''U2'' \<noteq> ''U3''" by simp
  have priv: "isPrivate \<lparr>user_id = ''U3'', isPrivate = True\<rparr>" by simp
  have u: "user_findUnique (store_request ACCEPTED) ''U3'' = Some \<lparr>user_id = ''U3'', isPrivate = True\<rparr>"
    and f: "follow_findUnique (store_request ACCEPTED) ''U2'' ''U3'' = None"
    and r: "followRequest_findUnique (store_request ACCEPTED) ''U2'' ''U3'' = Some (request1 ACCEPTED)"
    and st: "status (request1 ACCEPTED) = ACCEPTED"
    by (simp_all add: store_request_def store0_def request1_def user_findUnique_def
        follow_findUnique_def followRequest_findUnique_def)
  show ?thesis
    using hist ne u f r followUser_accepted_row [OF ne u priv f r st, of "''r2''"] by blast
qed

section \<open>Claims about pin visibility\<close>

text \<open>
  C2: for a stored pin and a viewer who is absent or has a (non-empty) user id,
  \<open>getPinById\<close> returns the pin exactly when the pin is public, or the viewer is its
  author, or an edge from the viewer to the author exists; otherwise it returns nothing.
  What it returns is that pin. An absent viewer sees the pin exactly when it is public.
  The users table is not consulted: replacing it, and with it every \<open>isPrivate\<close> flag,
  does not change the answer.
\<close>

theorem getPinById_visibility:
  assumes "pin_findUnique s pinId = Some p" and "userId \<noteq> Some []"
  shows "(getPinById s pinId userId \<noteq> None) =
           (isPublic p \<or> userId = Some (authorId p) \<or>
            (\<exists>u. userId = Some u \<and> follow_findUnique s u (authorId p) \<noteq> None)) \<and>
         (\<forall>v. getPinById s pinId userId = Some v \<longrightarrow> pin v = p) \<and>
         (getPinById s pinId None \<noteq> None) = isPublic p \<and>
         getPinById (s\<lparr>users := us\<rparr>) pinId userId = getPinById s pinId userId"
proof -
  have 1: "(getPinById s pinId userId \<noteq> None) =
           (isPublic p \<or> userId = Some (authorId p) \<or>
            (\<exists>u. userId = Some u \<and> follow_findUnique s u (authorId p) \<noteq> None))"
    using assms by (auto simp: getPinById_def truthy_def split: option.splits)
  have 2: "\<forall>v. getPinById s pinId userId = Some v \<longrightarrow> pin v = p"
    using assms(1)
    by (auto simp: getPinById_def withLikeStatus_def split: option.splits if_splits)
  have 3: "(getPinById s pinId None \<noteq> None) = isPublic p"
    using assms(1) by (simp add: getPinById_def)
  have 4: "getPinById (s\<lparr>users := us\<rparr>) pinId userId = getPinById s pinId userId"
    by (simp add: getPinById_def users_irrelevant cong: option.case_cong if_cong)
  from 1 2 3 4 show ?thesis by blast
qed

text \<open>
  The non-public pin \<open>P\<close> of the private \<open>U3\<close>: hidden from \<open>U2\<close> and from an absent
  viewer, shown to \<open>U2\<close> once the edge from \<open>U2\<close> to \<open>U3\<close> exists, and shown to \<open>U3\<close>.
\<close>

theorem getPinById_visibility_witness:
  "pin_findUnique store_pins ''P'' = Some pinP \<and> \<not> isPublic pinP \<and>
   follow_findUnique store_pins ''U2'' ''U3'' = None \<and>
   getPinById store_pins ''P'' (Some ''U2'') = None \<and>
   getPinById store_pins ''P'' None = None \<and>
   follow_findUnique (store_pins\<lparr>follows := [follow1]\<rparr>) ''U2'' ''U3'' \<noteq> None \<and>
   getPinById (store_pins\<lparr>follows := [follow1]\<rparr>) ''P'' (Some ''U2'') \<noteq> None \<and>
   getPinById store_pins ''P'' (Some ''U3'') \<noteq> None"
proof -
  have p: "pin_findUnique store_pins ''P'' = Some pinP"
    "pin_findUnique (store_pins\<lparr>follows := [follow1]\<rparr>) ''P'' = Some pinP"
    by (simp_all add: pin_findUnique_def store_pins_def pinP_def)
  have v: "Some ''U2'' \<noteq> Some []" "Some ''U3'' \<noteq> Some []" "None \<noteq> Some ([] :: string)"
    by simp_all
  have fields: "\<not> isPublic pinP" "authorId pinP = ''U3''"
    by (simp_all add: pinP_def)
  have no_edge: "follow_findUnique store_pins u ''U3'' = None" for u
    by (simp add: follow_findUnique_def store_pins_def store0_def)
  have edge: "follow_findUnique (store_pins\<lparr>follows := [follow1]\<rparr>) ''U2'' ''U3'' \<noteq> None"
    by (simp add: follow_findUnique_def follow1_def)
  have 1: "getPinById store_pins ''P'' (Some ''U2'') = None"
    using getPinById_visibility [OF p(1) v(1)]
    by (simp (no_asm_use) add: fields no_edge; blast)
  have 2: "getPinById store_pins ''P'' None = None"
    using getPinById_visibility [OF p(1) v(3)]
    by (simp (no_asm_use) add: fields no_edge; blast)
  have 3: "getPinById (store_pins\<lparr>follows := [follow1]\<rparr>) ''P'' (Some ''U2'') \<noteq> None"
    using getPinById_visibility [OF p(2) v(1)] edge
    by (simp (no_asm_use) add: fields; blast)
  have 4: "getPinById store_pins ''P'' (Some ''U3'') \<noteq> None"
    using getPinById_visibility [OF p(1) v(2)]
    by (simp (no_asm_use) add: fields; blast)
  show ?thesis
    using p(1) fields(1) no_edge [of "''U2''"] edge 1 2 3 4 by blast
qed






end
